theory Spec2Isabelle
  imports Main
begin

section \<open>PlotSeries: a sorted buffer of telemetry points\<close>

text \<open>
  The embedding follows \<^verbatim>\<open>src/plugins/plot/src/plot/PlotSeries.js\<close>.

  \<^item> A point is a JavaScript object. The type variable \<open>'p\<close> stands for object
    references: equality on \<open>'p\<close> is object identity (what \<^verbatim>\<open>indexOf\<close> compares).
  \<^item> The extractors \<^verbatim>\<open>this.getXVal\<close>, \<^verbatim>\<open>this.getYVal\<close> and the closure
    \<^verbatim>\<open>this.evaluate\<close> are fields of the instance, as in the source. The extracted
    numbers are modelled as integers (timestamps and integral samples): NaN, infinite
    values and rounding are outside the model.
  \<^item> The write \<^verbatim>\<open>point._limit = ...\<close> changes the object and not its identity; the
    annotation is kept in the map \<open>limits\<close> of the instance state.
  \<^item> \<^verbatim>\<open>this.emit(...)\<close> appends to the log \<open>emitted\<close>. The last argument of the
    \<^verbatim>\<open>add\<close> and \<^verbatim>\<open>remove\<close> events is the series itself and is left out.
  \<^item> The attribute \<^verbatim>\<open>stats\<close> of the base class \<^verbatim>\<open>Model\<close> (\<^verbatim>\<open>get\<close>, \<^verbatim>\<open>set\<close>,
    \<^verbatim>\<open>unset\<close>) is an optional field: \<open>None\<close> when unset.
\<close>

subsection \<open>Data model\<close>

record 'p minmax =
  minValue :: int
  minPoint :: 'p
  maxValue :: int
  maxPoint :: 'p

datatype 'p event = EvAdd 'p nat | EvRemove 'p int | EvReset

record ('p, 'l) series =
  data :: "'p list"
  stats :: "'p minmax option"
  getXVal :: "'p \<Rightarrow> int"
  getYVal :: "'p \<Rightarrow> int"
  evaluate :: "'p \<Rightarrow> 'l"
  limits :: "'p \<Rightarrow> 'l option"
  emitted :: "'p event list"

record range =
  rmin :: int
  rmax :: int

text \<open>The constructor: no data, no \<^verbatim>\<open>stats\<close> attribute, the extractors bound.\<close>

definition newSeries :: "('p \<Rightarrow> int) \<Rightarrow> ('p \<Rightarrow> int) \<Rightarrow> ('p \<Rightarrow> 'l) \<Rightarrow> ('p, 'l) series" where
  "newSeries gx gy ev =
     \<lparr>data = [], stats = None, getXVal = gx, getYVal = gy, evaluate = ev,
      limits = (\<lambda>_. None), emitted = []\<rparr>"

subsection \<open>JavaScript arrays\<close>

text \<open>\<^verbatim>\<open>xs[i]\<close>: \<^verbatim>\<open>undefined\<close> (here \<open>None\<close>) outside the array, also at index -1.\<close>

definition elemAt :: "'a list \<Rightarrow> int \<Rightarrow> 'a option" where
  "elemAt xs i = (if 0 \<le> i \<and> i < int (length xs) then Some (xs ! nat i) else None)"

text \<open>\<^verbatim>\<open>xs.indexOf(x)\<close>: the first index holding \<open>x\<close>, or -1.\<close>

fun indexOfFrom :: "'a list \<Rightarrow> 'a \<Rightarrow> nat \<Rightarrow> int" where
  "indexOfFrom [] x k = - 1"
| "indexOfFrom (y # ys) x k = (if y = x then int k else indexOfFrom ys x (Suc k))"

definition indexOf :: "'a list \<Rightarrow> 'a \<Rightarrow> int" where
  "indexOf xs x = indexOfFrom xs x 0"

text \<open>
  \<^verbatim>\<open>xs.splice(start, deleteCount, ...items)\<close>: a negative start counts from the end
  (and is clamped at 0), a start beyond the end is the end.
\<close>

definition splice_js :: "'a list \<Rightarrow> int \<Rightarrow> nat \<Rightarrow> 'a list \<Rightarrow> 'a list" where
  "splice_js xs start deleteCount items =
     (let len = int (length xs);
          actualStart = nat (if start < 0 then max (len + start) 0 else min start len)
      in take actualStart xs @ items
         @ drop (actualStart + min deleteCount (length xs - actualStart)) xs)"

text \<open>\<^verbatim>\<open>xs.slice(begin, end)\<close> for indices that are not negative.\<close>

definition slice :: "'a list \<Rightarrow> nat \<Rightarrow> nat \<Rightarrow> 'a list" where
  "slice xs b e = take (e - b) (drop b xs)"

subsection \<open>The sorted insertion index\<close>

text \<open>
  Modelled from the spec: lodash's \<^verbatim>\<open>_.sortedIndex(array, value, iteratee)\<close> is a
  library function outside \<^verbatim>\<open>src/\<close>. The spec asks for a "standard
  binary-insertion-point search (leftmost insertion point for ties)"; the definition is
  that binary search on the extracted values: halve the interval, move \<open>low\<close> past
  \<open>mid\<close> when the element at \<open>mid\<close> is smaller than the value, else move \<open>high\<close>
  to \<open>mid\<close>.
\<close>

function binaryIndexBy :: "'p list \<Rightarrow> int \<Rightarrow> ('p \<Rightarrow> int) \<Rightarrow> nat \<Rightarrow> nat \<Rightarrow> nat" where
  "binaryIndexBy array v iteratee low high =
     (if low < high
      then (if iteratee (array ! ((low + high) div 2)) < v
            then binaryIndexBy array v iteratee ((low + high) div 2 + 1) high
            else binaryIndexBy array v iteratee low ((low + high) div 2))
      else high)"
  by pat_completeness auto
termination
  by (relation "measure (\<lambda>(array, v, iteratee, low, high). high - low)") auto

declare binaryIndexBy.simps [simp del]

text \<open>
  The insertion index of an x value. \<^verbatim>\<open>sortedIndex(point)\<close> is the index of the
  point's x value. In \<^verbatim>\<open>purgeRecordsOutsideRange\<close> the argument is a synthetic point
  whose x field is \<^verbatim>\<open>format.format(range.min)\<close>; the format object is not in
  \<^verbatim>\<open>src/\<close>, and parsing what it formatted is taken to give the value back.
\<close>

definition sortedIndexOf :: "('p, 'l) series \<Rightarrow> int \<Rightarrow> nat" where
  "sortedIndexOf s v = binaryIndexBy (data s) v (getXVal s) 0 (length (data s))"

definition sortedIndex :: "('p, 'l) series \<Rightarrow> 'p \<Rightarrow> nat" where
  "sortedIndex s point = sortedIndexOf s (getXVal s point)"

subsection \<open>Statistics\<close>

definition updateStats :: "('p, 'l) series \<Rightarrow> 'p \<Rightarrow> ('p, 'l) series" where
  "updateStats s point =
     (let value = getYVal s point in
      case stats s of
        None \<Rightarrow>
          s\<lparr>stats := Some \<lparr>minValue = value, minPoint = point,
                            maxValue = value, maxPoint = point\<rparr>\<rparr>
      | Some st \<Rightarrow>
          (let changed1 = (maxValue st < value);
               st1 = (if changed1 then st\<lparr>maxValue := value, maxPoint := point\<rparr> else st);
               changed2 = (minValue st1 > value);
               st2 = (if changed2 then st1\<lparr>minValue := value, minPoint := point\<rparr> else st1)
           in if changed1 \<or> changed2 then s\<lparr>stats := Some st2\<rparr> else s))"

definition resetStats :: "('p, 'l) series \<Rightarrow> ('p, 'l) series" where
  "resetStats s = foldl updateStats (s\<lparr>stats := None\<rparr>) (data s)"

subsection \<open>Adding and removing points\<close>

text \<open>
  \<^verbatim>\<open>this.getXVal(this.data[i])\<close>: outside the array the extractor is applied to
  \<^verbatim>\<open>undefined\<close>. What the format object returns there is not in \<^verbatim>\<open>src/\<close>; it is
  taken to be no number (\<open>None\<close>), which is \<^verbatim>\<open>===\<close> to no x value.
\<close>

definition xValAt :: "('p, 'l) series \<Rightarrow> int \<Rightarrow> int option" where
  "xValAt s i = map_option (getXVal s) (elemAt (data s) i)"

definition add :: "('p, 'l) series \<Rightarrow> 'p \<Rightarrow> bool \<Rightarrow> ('p, 'l) series" where
  "add s point appendOnly =
     (let insertIndex = (if appendOnly then length (data s) else sortedIndex s point) in
      if \<not> appendOnly \<and> xValAt s (int insertIndex) = Some (getXVal s point) then s
      else if \<not> appendOnly \<and> xValAt s (int insertIndex - 1) = Some (getXVal s point) then s
      else
        (let s1 = updateStats s point;
             s2 = s1\<lparr>limits := (limits s1)(point := Some (evaluate s1 point))\<rparr>;
             s3 = s2\<lparr>data := splice_js (data s2) (int insertIndex) 0 [point]\<rparr>
         in s3\<lparr>emitted := emitted s3 @ [EvAdd point insertIndex]\<rparr>))"

definition remove :: "('p, 'l) series \<Rightarrow> 'p \<Rightarrow> ('p, 'l) series" where
  "remove s point =
     (let index = indexOf (data s) point;
          s1 = s\<lparr>data := splice_js (data s) index 1 []\<rparr>
      in s1\<lparr>emitted := emitted s1 @ [EvRemove point index]\<rparr>)"

text \<open>
  Modelled from the spec: \<^verbatim>\<open>addPoints\<close>, which \<^verbatim>\<open>reset\<close> calls, is not defined in
  \<^verbatim>\<open>PlotSeries.js\<close>. The spec: "bulk-append them via append-only semantics", that
  is \<^verbatim>\<open>add(point, appendOnly)\<close> for each point in order.
\<close>

definition addPoints :: "('p, 'l) series \<Rightarrow> 'p list \<Rightarrow> bool \<Rightarrow> ('p, 'l) series" where
  "addPoints s newData appendOnly = foldl (\<lambda>t point. add t point appendOnly) s newData"

text \<open>\<^verbatim>\<open>reset(newData)\<close>; \<open>None\<close> is a call without argument.\<close>

definition reset :: "('p, 'l) series \<Rightarrow> 'p list option \<Rightarrow> ('p, 'l) series" where
  "reset s newData =
     (let s1 = s\<lparr>data := []\<rparr>;
          s2 = resetStats s1;
          s3 = s2\<lparr>emitted := emitted s2 @ [EvReset]\<rparr>
      in case newData of None \<Rightarrow> s3 | Some points \<Rightarrow> addPoints s3 points True)"

subsection \<open>The nearest point\<close>

text \<open>A distance, or \<^verbatim>\<open>Number.POSITIVE_INFINITY\<close>.\<close>

datatype distance = Finite int | PositiveInfinity

fun distLess :: "distance \<Rightarrow> distance \<Rightarrow> bool" where
  "distLess (Finite a) (Finite b) = (a < b)"
| "distLess (Finite a) PositiveInfinity = True"
| "distLess PositiveInfinity d = False"

definition nearestPoint :: "('p, 'l) series \<Rightarrow> 'p \<Rightarrow> 'p option" where
  "nearestPoint s point =
     (let insertIndex = int (sortedIndex s point);
          lowPoint = elemAt (data s) (insertIndex - 1);
          highPoint = elemAt (data s) insertIndex;
          indexVal = getXVal s point;
          lowDistance = (case lowPoint of
                           Some lp \<Rightarrow> Finite (indexVal - getXVal s lp)
                         | None \<Rightarrow> PositiveInfinity);
          highDistance = (case highPoint of
                            Some hp \<Rightarrow> Finite (getXVal s hp - indexVal)
                          | None \<Rightarrow> PositiveInfinity)
      in if distLess highDistance lowDistance then highPoint else lowPoint)"

subsection \<open>Purging\<close>

definition purgeRecordsOutsideRange :: "('p, 'l) series \<Rightarrow> range \<Rightarrow> ('p, 'l) series" where
  "purgeRecordsOutsideRange s r =
     (let startIndex = sortedIndexOf s (rmin r);
          endIndex = sortedIndexOf s (rmax r) + 1;
          pointsToRemove = int startIndex + (int (length (data s)) - int endIndex + 1)
      in if pointsToRemove > 0 then
           (if pointsToRemove < 1000 then
              (let s1 = foldl remove s (slice (data s) 0 startIndex);
                   s2 = foldl remove s1 (slice (data s1) endIndex (length (data s1)))
               in resetStats s2)
            else reset s (Some (slice (data s) startIndex endIndex)))
         else s)"

subsection \<open>Sequences of operations\<close>

text \<open>The public mutations of a series, and a series after a sequence of them.\<close>

datatype 'p operation = DoAdd 'p bool | DoRemove 'p | DoReset "'p list option"

fun perform :: "('p, 'l) series \<Rightarrow> 'p operation \<Rightarrow> ('p, 'l) series" where
  "perform s (DoAdd point appendOnly) = add s point appendOnly"
| "perform s (DoRemove point) = remove s point"
| "perform s (DoReset newData) = reset s newData"

fun isRemove :: "'p operation \<Rightarrow> bool" where
  "isRemove (DoRemove point) = True"
| "isRemove (DoAdd point appendOnly) = False"
| "isRemove (DoReset newData) = False"

definition run :: "('p, 'l) series \<Rightarrow> 'p operation list \<Rightarrow> ('p, 'l) series" where
  "run s ops = foldl perform s ops"

text \<open>The \<^verbatim>\<open>remove\<close> events of a log.\<close>

fun isRemoveEvent :: "'p event \<Rightarrow> bool" where
  "isRemoveEvent (EvRemove point index) = True"
| "isRemoveEvent (EvAdd point index) = False"
| "isRemoveEvent EvReset = False"

text \<open>Statistics that are the minimum and the maximum of a set of y values.\<close>

definition statsFit :: "'p minmax option \<Rightarrow> int set \<Rightarrow> bool" where
  "statsFit so Y =
     (case so of
        None \<Rightarrow> Y = {}
      | Some st \<Rightarrow> Y \<noteq> {} \<and> minValue st = Min Y \<and> maxValue st = Max Y)"

subsection \<open>A concrete series\<close>

text \<open>
  A telemetry datum with an identity, a timestamp and a sample; a plot series whose x key
  is the timestamp and whose y key is the sample; that series seeded with an array; and
  the array of \<open>n\<close> datums with timestamps \<open>0, 1, ..., n - 1\<close>.
\<close>

datatype datum = Datum (ident: nat) (utc: int) (val: int)

definition plot :: "(datum, bool) series" where
  "plot = newSeries utc val (\<lambda>p. 100 < val p)"

definition seeded :: "datum list \<Rightarrow> (datum, bool) series" where
  "seeded ps = reset plot (Some ps)"

definition ticks :: "nat \<Rightarrow> datum list" where
  "ticks n = map (\<lambda>i. Datum i (int i) 0) [0..<n]"

text \<open>The array of \<open>n\<close> datums with timestamps \<open>0, 10, ..., 10 * (n - 1)\<close>.\<close>

definition decades :: "nat \<Rightarrow> datum list" where
  "decades n = map (\<lambda>i. Datum i (10 * int i) 0) [0..<n]"

section \<open>Properties\<close>

subsection \<open>The binary search on a sorted array\<close>

lemma binaryIndexBy_range:
  "low \<le> high \<Longrightarrow> low \<le> binaryIndexBy xs v f low high \<and> binaryIndexBy xs v f low high \<le> high"
proof (induction xs v f low high rule: binaryIndexBy.induct)
  case (1 array v iteratee low high)
  show ?case
  proof (cases "low < high")
    case False
    with "1.prems" show ?thesis by (simp add: binaryIndexBy.simps)
  next
    case lt: True
    let ?mid = "(low + high) div 2"
    show ?thesis
    proof (cases "iteratee (array ! ?mid) < v")
      case True
      have "?mid + 1 \<le> high" using lt by simp
      from "1.IH"(1) [OF lt True this] lt True show ?thesis
        by (subst (1 2) binaryIndexBy.simps) (simp; linarith)
    next
      case False
      have "low \<le> ?mid" using lt by simp
      from "1.IH"(2) [OF lt False this] lt False show ?thesis
        by (subst (1 2) binaryIndexBy.simps) (simp; linarith)
    qed
  qed
qed

lemma binaryIndexBy_partition:
  assumes "sorted (map f xs)" "low \<le> high" "high \<le> length xs"
    and "\<forall>j<low. f (xs ! j) < v"
    and "\<forall>j. high \<le> j \<and> j < length xs \<longrightarrow> v \<le> f (xs ! j)"
  shows "(\<forall>j<binaryIndexBy xs v f low high. f (xs ! j) < v) \<and>
         (\<forall>j. binaryIndexBy xs v f low high \<le> j \<and> j < length xs \<longrightarrow> v \<le> f (xs ! j))"
  using assms
proof (induction xs v f low high rule: binaryIndexBy.induct)
  case (1 array v iteratee low high)
  show ?case
  proof (cases "low < high")
    case False
    with "1.prems" show ?thesis by (simp add: binaryIndexBy.simps)
  next
    case lt: True
    let ?mid = "(low + high) div 2"
    have mid: "low \<le> ?mid" "?mid < high" "?mid < length array"
      using lt "1.prems"(3) by simp_all
    have srt: "\<And>i j. i \<le> j \<Longrightarrow> j < length array \<Longrightarrow> iteratee (array ! i) \<le> iteratee (array ! j)"
      using "1.prems"(1) by (simp add: sorted_iff_nth_mono)
    show ?thesis
    proof (cases "iteratee (array ! ?mid) < v")
      case True
      have below: "\<forall>j<?mid + 1. iteratee (array ! j) < v"
      proof (intro allI impI)
        fix j assume "j < ?mid + 1"
        then have "j \<le> ?mid" by simp
        from srt [OF this mid(3)] True show "iteratee (array ! j) < v" by simp
      qed
      have "?mid + 1 \<le> high" using mid by simp
      from "1.IH"(1) [OF lt True "1.prems"(1) this "1.prems"(3) below "1.prems"(5)] lt True
      show ?thesis by (subst (1 2) binaryIndexBy.simps) simp
    next
      case False
      have above: "\<forall>j. ?mid \<le> j \<and> j < length array \<longrightarrow> v \<le> iteratee (array ! j)"
      proof (intro allI impI)
        fix j assume "?mid \<le> j \<and> j < length array"
        then have "iteratee (array ! ?mid) \<le> iteratee (array ! j)" using srt by blast
        with False show "v \<le> iteratee (array ! j)" by simp
      qed
      have "?mid \<le> length array" using mid by simp
      from "1.IH"(2) [OF lt False "1.prems"(1) mid(1) this "1.prems"(4) above] lt False
      show ?thesis by (subst (1 2) binaryIndexBy.simps) simp
    qed
  qed
qed

lemma sortedIndexOf_le: "sortedIndexOf s v \<le> length (data s)"
  using binaryIndexBy_range [of 0 "length (data s)" "data s" v "getXVal s"]
  by (simp add: sortedIndexOf_def)

lemma sortedIndexOf_below:
  "sorted (map (getXVal s) (data s)) \<Longrightarrow> j < sortedIndexOf s v \<Longrightarrow> getXVal s (data s ! j) < v"
  using binaryIndexBy_partition [of "getXVal s" "data s" 0 "length (data s)" v]
  by (simp add: sortedIndexOf_def)

lemma sortedIndexOf_above:
  "sorted (map (getXVal s) (data s)) \<Longrightarrow> sortedIndexOf s v \<le> j \<Longrightarrow> j < length (data s)
     \<Longrightarrow> v \<le> getXVal s (data s ! j)"
  using binaryIndexBy_partition [of "getXVal s" "data s" 0 "length (data s)" v]
  by (simp add: sortedIndexOf_def)

subsection \<open>Array operations\<close>

lemma splice_insert:
  "i \<le> length xs \<Longrightarrow> splice_js xs (int i) 0 items = take i xs @ items @ drop i xs"
  by (simp add: splice_js_def Let_def min_def)

lemma splice_delete:
  "i < length xs \<Longrightarrow> splice_js xs (int i) (Suc 0) [] = take i xs @ drop (Suc i) xs"
  by (simp add: splice_js_def Let_def min_def)

lemma splice_delete_last:
  "xs \<noteq> [] \<Longrightarrow> splice_js xs (- 1) (Suc 0) [] = butlast xs"
  by (cases xs rule: rev_cases) (simp_all add: splice_js_def Let_def)

lemma indexOfFrom_eq:
  "indexOfFrom xs x k =
     (if x \<in> set xs then int (k + length (takeWhile (\<lambda>y. y \<noteq> x) xs)) else - 1)"
  by (induction xs arbitrary: k) auto

lemma indexOf_found:
  "x \<in> set xs \<Longrightarrow> indexOf xs x = int (length (takeWhile (\<lambda>y. y \<noteq> x) xs))"
  by (simp add: indexOf_def indexOfFrom_eq)

lemma indexOf_missing: "x \<notin> set xs \<Longrightarrow> indexOf xs x = - 1"
  by (simp add: indexOf_def indexOfFrom_eq)

lemma first_index_props:
  assumes "x \<in> set xs"
  shows "length (takeWhile (\<lambda>y. y \<noteq> x) xs) < length xs"
    and "xs ! length (takeWhile (\<lambda>y. y \<noteq> x) xs) = x"
    and "take (length (takeWhile (\<lambda>y. y \<noteq> x) xs)) xs
           @ drop (Suc (length (takeWhile (\<lambda>y. y \<noteq> x) xs))) xs = remove1 x xs"
proof -
  show "length (takeWhile (\<lambda>y. y \<noteq> x) xs) < length xs"
    using assms by (induction xs) auto
  show "xs ! length (takeWhile (\<lambda>y. y \<noteq> x) xs) = x"
    using assms by (induction xs) auto
  show "take (length (takeWhile (\<lambda>y. y \<noteq> x) xs)) xs
           @ drop (Suc (length (takeWhile (\<lambda>y. y \<noteq> x) xs))) xs = remove1 x xs"
    using assms by (induction xs) auto
qed

subsection \<open>What each operation leaves alone\<close>

lemma updateStats_frame [simp]:
  "data (updateStats s p) = data s"
  "getXVal (updateStats s p) = getXVal s"
  "getYVal (updateStats s p) = getYVal s"
  "evaluate (updateStats s p) = evaluate s"
  "limits (updateStats s p) = limits s"
  "emitted (updateStats s p) = emitted s"
  by (simp_all add: updateStats_def Let_def split: option.splits)

lemma foldl_updateStats_frame [simp]:
  "data (foldl updateStats s ps) = data s"
  "getXVal (foldl updateStats s ps) = getXVal s"
  "getYVal (foldl updateStats s ps) = getYVal s"
  "evaluate (foldl updateStats s ps) = evaluate s"
  "limits (foldl updateStats s ps) = limits s"
  "emitted (foldl updateStats s ps) = emitted s"
  by (induction ps arbitrary: s) simp_all

lemma resetStats_frame [simp]:
  "data (resetStats s) = data s"
  "getXVal (resetStats s) = getXVal s"
  "getYVal (resetStats s) = getYVal s"
  "evaluate (resetStats s) = evaluate s"
  "limits (resetStats s) = limits s"
  "emitted (resetStats s) = emitted s"
  by (simp_all add: resetStats_def)

lemma add_frame [simp]:
  "getXVal (add s p b) = getXVal s"
  "getYVal (add s p b) = getYVal s"
  "evaluate (add s p b) = evaluate s"
  by (simp_all add: add_def Let_def)

lemma remove_frame [simp]:
  "getXVal (remove s p) = getXVal s"
  "getYVal (remove s p) = getYVal s"
  "evaluate (remove s p) = evaluate s"
  "limits (remove s p) = limits s"
  "stats (remove s p) = stats s"
  by (simp_all add: remove_def Let_def)

lemma foldl_remove_frame [simp]:
  "getXVal (foldl remove s ps) = getXVal s"
  "getYVal (foldl remove s ps) = getYVal s"
  "evaluate (foldl remove s ps) = evaluate s"
  "limits (foldl remove s ps) = limits s"
  "stats (foldl remove s ps) = stats s"
  by (induction ps arbitrary: s) simp_all

lemma updateStats_stats_cong:
  "stats s = stats t \<Longrightarrow> getYVal s = getYVal t
     \<Longrightarrow> stats (updateStats s p) = stats (updateStats t p)"
  by (simp add: updateStats_def Let_def split: option.splits)

lemma foldl_updateStats_stats_cong:
  "stats s = stats t \<Longrightarrow> getYVal s = getYVal t
     \<Longrightarrow> stats (foldl updateStats s ps) = stats (foldl updateStats t ps)"
proof (induction ps arbitrary: s t)
  case Nil
  then show ?case by simp
next
  case (Cons p ps)
  have "stats (updateStats s p) = stats (updateStats t p)"
    using Cons.prems by (rule updateStats_stats_cong)
  moreover have "getYVal (updateStats s p) = getYVal (updateStats t p)"
    using Cons.prems by simp
  ultimately have "stats (foldl updateStats (updateStats s p) ps)
                     = stats (foldl updateStats (updateStats t p) ps)"
    by (rule Cons.IH)
  then show ?case by simp
qed

subsection \<open>Appending and reseeding\<close>

lemma add_append:
  "add s p True =
     (updateStats s p)\<lparr>limits := (limits s)(p := Some (evaluate s p)),
                       data := data s @ [p],
                       emitted := emitted s @ [EvAdd p (length (data s))]\<rparr>"
  by (simp add: add_def Let_def splice_insert)

lemma addPoints_Cons: "addPoints s (p # ps) b = addPoints (add s p b) ps b"
  by (simp add: addPoints_def)

lemma addPoints_frame [simp]:
  "getXVal (addPoints s ps b) = getXVal s"
  "getYVal (addPoints s ps b) = getYVal s"
  "evaluate (addPoints s ps b) = evaluate s"
  by (induction ps arbitrary: s) (simp_all add: addPoints_def)

lemma addPoints_append_data: "data (addPoints s ps True) = data s @ ps"
  by (induction ps arbitrary: s) (simp_all add: addPoints_def add_append)

lemma addPoints_append_stats:
  "stats (addPoints s ps True) = stats (foldl updateStats s ps)"
proof (induction ps arbitrary: s)
  case Nil
  show ?case by (simp add: addPoints_def)
next
  case (Cons p ps)
  have "stats (foldl updateStats (add s p True) ps)
          = stats (foldl updateStats (updateStats s p) ps)"
    by (rule foldl_updateStats_stats_cong) (simp_all add: add_append)
  then show ?case by (simp add: addPoints_Cons Cons.IH)
qed

lemma addPoints_append_emitted:
  "emitted (addPoints s ps True) =
     emitted s @ map (\<lambda>(i, p). EvAdd p i) (enumerate (length (data s)) ps)"
  by (induction ps arbitrary: s) (simp_all add: addPoints_def add_append)

lemma reset_frame [simp]:
  "getXVal (reset s nd) = getXVal s"
  "getYVal (reset s nd) = getYVal s"
  "evaluate (reset s nd) = evaluate s"
  by (simp_all add: reset_def Let_def split: option.splits)

lemma reset_seed_data: "data (reset s (Some ps)) = ps"
  by (simp add: reset_def Let_def addPoints_append_data)

lemma reset_seed_stats: "stats (reset s (Some ps)) = stats (resetStats (s\<lparr>data := ps\<rparr>))"
proof -
  have "stats (foldl updateStats (resetStats (s\<lparr>data := []\<rparr>)\<lparr>emitted := emitted s @ [EvReset]\<rparr>) ps)
          = stats (foldl updateStats (s\<lparr>data := ps, stats := None\<rparr>) ps)"
    by (rule foldl_updateStats_stats_cong) (simp_all add: resetStats_def)
  then show ?thesis
    by (simp add: reset_def Let_def addPoints_append_stats resetStats_def)
qed

lemma reset_seed_emitted:
  "emitted (reset s (Some ps)) =
     emitted s @ EvReset # map (\<lambda>(i, p). EvAdd p i) (enumerate 0 ps)"
  by (simp add: reset_def Let_def addPoints_append_emitted)

subsection \<open>Inserting in order\<close>

lemma elemAt_nth: "i < length xs \<Longrightarrow> elemAt xs (int i) = Some (xs ! i)"
  by (simp add: elemAt_def)

lemma elemAt_length: "elemAt xs (int (length xs)) = None"
  by (simp add: elemAt_def)

lemma elemAt_pred: "0 < i \<Longrightarrow> i \<le> length xs \<Longrightarrow> elemAt xs (int i - 1) = Some (xs ! (i - 1))"
  by (simp add: elemAt_def nat_diff_distrib' less_le_trans) 


lemma add_rejected:
  "xValAt s (int (sortedIndex s p)) = Some (getXVal s p)
     \<or> xValAt s (int (sortedIndex s p) - 1) = Some (getXVal s p)
   \<Longrightarrow> add s p False = s"
  by (auto simp: add_def Let_def)

lemma sortedIndex_le: "sortedIndex s p \<le> length (data s)"
  by (simp add: sortedIndex_def sortedIndexOf_le)

lemma add_inserted:
  "xValAt s (int (sortedIndex s p)) \<noteq> Some (getXVal s p)
   \<Longrightarrow> xValAt s (int (sortedIndex s p) - 1) \<noteq> Some (getXVal s p)
   \<Longrightarrow> add s p False =
         (updateStats s p)\<lparr>limits := (limits s)(p := Some (evaluate s p)),
            data := take (sortedIndex s p) (data s) @ p # drop (sortedIndex s p) (data s),
            emitted := emitted s @ [EvAdd p (sortedIndex s p)]\<rparr>"
  by (simp add: add_def Let_def splice_insert sortedIndex_le)

text \<open>On a sorted buffer the index found is the leftmost insertion point.\<close>

lemma take_sortedIndexOf_below:
  assumes "sorted (map (getXVal s) (data s))" and "y \<in> set (take (sortedIndexOf s v) (data s))"
  shows "getXVal s y < v"
proof -
  from assms(2) obtain j where j: "j < sortedIndexOf s v" "j < length (data s)" "y = data s ! j"
    by (auto simp: in_set_conv_nth)
  with sortedIndexOf_below [OF assms(1) j(1)] show ?thesis by simp
qed

lemma drop_sortedIndexOf_above:
  assumes "sorted (map (getXVal s) (data s))" and "y \<in> set (drop (sortedIndexOf s v) (data s))"
  shows "v \<le> getXVal s y"
proof -
  from assms(2) obtain j where j: "j < length (data s) - sortedIndexOf s v"
      "y = data s ! (sortedIndexOf s v + j)"
    by (auto simp: in_set_conv_nth)
  then have "sortedIndexOf s v + j < length (data s)" by simp
  from sortedIndexOf_above [OF assms(1) _ this] j show ?thesis by simp
qed

lemma duplicate_at_index:
  assumes srt: "sorted (map (getXVal s) (data s))"
    and q: "q \<in> set (data s)" "getXVal s q = v"
  shows "xValAt s (int (sortedIndexOf s v)) = Some v"
proof -
  let ?i = "sortedIndexOf s v"
  from q(1) obtain j where j: "j < length (data s)" "data s ! j = q"
    by (auto simp: in_set_conv_nth)
  have "\<not> j < ?i"
    using sortedIndexOf_below [OF srt, of j v] j q(2) by auto
  then have ij: "?i \<le> j" by simp
  with j have lt: "?i < length (data s)" by simp
  have "v \<le> getXVal s (data s ! ?i)"
    using sortedIndexOf_above [OF srt _ lt] by simp
  moreover have "getXVal s (data s ! ?i) \<le> getXVal s (data s ! j)"
    using srt ij j(1) by (simp add: sorted_iff_nth_mono)
  ultimately have "getXVal s (data s ! ?i) = v" using j q(2) by simp
  with lt show ?thesis by (simp add: xValAt_def elemAt_nth)
qed

lemma add_False_data:
  "data (add s p False) = data s \<or>
   (xValAt s (int (sortedIndex s p)) \<noteq> Some (getXVal s p) \<and>
    data (add s p False)
      = take (sortedIndex s p) (data s) @ p # drop (sortedIndex s p) (data s))"
proof (cases "xValAt s (int (sortedIndex s p)) = Some (getXVal s p)
     \<or> xValAt s (int (sortedIndex s p) - 1) = Some (getXVal s p)")
  case True
  then show ?thesis by (simp add: add_rejected)
next
  case False
  then show ?thesis by (simp add: add_inserted)
qed

lemma drop_sortedIndexOf_strictly_above:
  assumes srt: "sorted_wrt (<) (map (getXVal s) (data s))"
    and nodup: "xValAt s (int (sortedIndexOf s v)) \<noteq> Some v"
    and y: "y \<in> set (drop (sortedIndexOf s v) (data s))"
  shows "v < getXVal s y"
proof -
  have srt': "sorted (map (getXVal s) (data s))"
    using srt by (rule strict_sorted_imp_sorted)
  have "v \<le> getXVal s y" using drop_sortedIndexOf_above [OF srt' y] .
  moreover have "getXVal s y \<noteq> v"
  proof
    assume "getXVal s y = v"
    moreover have "y \<in> set (data s)" using y by (rule in_set_dropD)
    ultimately show False using duplicate_at_index [OF srt'] nodup by blast
  qed
  ultimately show ?thesis by simp
qed

lemma add_keeps_strictly_sorted:
  assumes srt: "sorted_wrt (<) (map (getXVal s) (data s))"
  shows "sorted_wrt (<) (map (getXVal s) (data (add s p False)))"
proof -
  let ?i = "sortedIndex s p" and ?v = "getXVal s p"
  have srt': "sorted (map (getXVal s) (data s))"
    using srt by (rule strict_sorted_imp_sorted)
  from add_False_data [of s p] show ?thesis
  proof
    assume "data (add s p False) = data s"
    with srt show ?thesis by simp
  next
    assume ins: "xValAt s (int ?i) \<noteq> Some ?v \<and>
      data (add s p False) = take ?i (data s) @ p # drop ?i (data s)"
    have below: "\<forall>y\<in>set (take ?i (data s)). getXVal s y < ?v"
      using take_sortedIndexOf_below [OF srt'] by (simp add: sortedIndex_def)
    have above: "\<forall>y\<in>set (drop ?i (data s)). ?v < getXVal s y"
      using drop_sortedIndexOf_strictly_above [OF srt] ins by (simp add: sortedIndex_def)
    have parts: "sorted_wrt (<) (map (getXVal s) (take ?i (data s)))"
                "sorted_wrt (<) (map (getXVal s) (drop ?i (data s)))"
      using srt by (simp_all add: sorted_wrt_take sorted_wrt_drop take_map [symmetric] drop_map [symmetric])
    have "sorted_wrt (<) (map (getXVal s) (take ?i (data s) @ p # drop ?i (data s)))"
      using below above parts by (fastforce simp: sorted_wrt_append)
    with ins show ?thesis by simp
  qed
qed


lemma adds_keep_strictly_sorted:
  "sorted_wrt (<) (map (getXVal s) (data s))
   \<Longrightarrow> sorted_wrt (<) (map (getXVal s) (data (foldl (\<lambda>t p. add t p False) s ps)))"
proof (induction ps arbitrary: s)
  case Nil
  then show ?case by simp
next
  case (Cons p ps)
  have "sorted_wrt (<) (map (getXVal (add s p False)) (data (add s p False)))"
    using add_keeps_strictly_sorted [OF Cons.prems] by simp
  from Cons.IH [OF this] show ?case by simp
qed

subsection \<open>The concrete series\<close>

lemma seeded_fields [simp]:
  "data (seeded ps) = ps"
  "getXVal (seeded ps) = utc"
  "getYVal (seeded ps) = val"
  by (simp_all add: seeded_def reset_seed_data plot_def newSeries_def)

lemma seeded_emitted:
  "emitted (seeded ps) = EvReset # map (\<lambda>(i, p). EvAdd p i) (enumerate 0 ps)"
  by (simp add: seeded_def reset_seed_emitted plot_def newSeries_def)

lemma plot_fields [simp]:
  "data plot = []" "stats plot = None" "getXVal plot = utc" "getYVal plot = val"
  "emitted plot = []"
  by (simp_all add: plot_def newSeries_def)

lemma binaryIndexBy_step:
  "low < high \<Longrightarrow> iteratee (array ! ((low + high) div 2)) < v \<Longrightarrow>
     binaryIndexBy array v iteratee low high
       = binaryIndexBy array v iteratee ((low + high) div 2 + 1) high"
  "low < high \<Longrightarrow> \<not> iteratee (array ! ((low + high) div 2)) < v \<Longrightarrow>
     binaryIndexBy array v iteratee low high
       = binaryIndexBy array v iteratee low ((low + high) div 2)"
  "\<not> low < high \<Longrightarrow> binaryIndexBy array v iteratee low high = high"
  by (subst binaryIndexBy.simps, simp)+

lemma add_False_data_eq:
  "data (add s p False) =
     (if xValAt s (int (sortedIndex s p)) = Some (getXVal s p)
         \<or> xValAt s (int (sortedIndex s p) - 1) = Some (getXVal s p)
      then data s
      else take (sortedIndex s p) (data s) @ p # drop (sortedIndex s p) (data s))"
  by (simp add: add_rejected add_inserted)

lemma foldl_add_frame [simp]:
  "getXVal (foldl (\<lambda>t p. add t p b) s ps) = getXVal s"
  "getYVal (foldl (\<lambda>t p. add t p b) s ps) = getYVal s"
  by (induction ps arbitrary: s) simp_all

subsection \<open>The nearest point\<close>

lemma nearestPoint_empty: "data s = [] \<Longrightarrow> nearestPoint s q = None"
  using sortedIndex_le [of s q] by (simp add: nearestPoint_def Let_def elemAt_def)

lemma nearestPoint_cases:
  fixes s :: "('p, 'l) series" and q :: 'p
  defines "i \<equiv> sortedIndex s q"
  assumes "data s \<noteq> []"
  shows "(i = 0 \<and> nearestPoint s q = Some (data s ! 0)) \<or>
         (i = length (data s) \<and> nearestPoint s q = Some (data s ! (i - 1))) \<or>
         (0 < i \<and> i < length (data s) \<and>
            getXVal s (data s ! i) - getXVal s q < getXVal s q - getXVal s (data s ! (i - 1)) \<and>
            nearestPoint s q = Some (data s ! i)) \<or>
         (0 < i \<and> i < length (data s) \<and>
            \<not> getXVal s (data s ! i) - getXVal s q < getXVal s q - getXVal s (data s ! (i - 1)) \<and>
            nearestPoint s q = Some (data s ! (i - 1)))"
proof -
  have le: "i \<le> length (data s)" unfolding i_def by (rule sortedIndex_le)
  have len: "0 < length (data s)" using assms(2) by simp
  consider "i = 0" | "i = length (data s)" "0 < i" | "0 < i" "i < length (data s)"
    using le by linarith
  then show ?thesis
  proof cases
    case 1
    then have "elemAt (data s) (int (sortedIndex s q) - 1) = None"
      "elemAt (data s) (int (sortedIndex s q)) = Some (data s ! 0)"
      using len unfolding i_def by (simp_all add: elemAt_def)
    then show ?thesis using 1 by (simp add: nearestPoint_def Let_def)
  next
    case 2
    then have "elemAt (data s) (int (sortedIndex s q) - 1) = Some (data s ! (i - 1))"
      "elemAt (data s) (int (sortedIndex s q)) = None"
      unfolding i_def using elemAt_pred [of "length (data s)" "data s"]
      by (simp_all add: elemAt_length)
    then show ?thesis using 2 by (simp add: nearestPoint_def Let_def)
  next
    case 3
    then have "elemAt (data s) (int (sortedIndex s q) - 1) = Some (data s ! (i - 1))"
      "elemAt (data s) (int (sortedIndex s q)) = Some (data s ! i)"
      unfolding i_def using elemAt_pred [of "sortedIndex s q" "data s"]
      by (simp_all add: elemAt_nth)
    then show ?thesis using 3 by (simp add: nearestPoint_def Let_def)
  qed
qed

lemma nearestPoint_is_nearest:
  fixes s :: "('p, 'l) series"
  assumes srt: "sorted (map (getXVal s) (data s))" and ne: "data s \<noteq> []"
  shows "\<exists>r. nearestPoint s q = Some r \<and> r \<in> set (data s) \<and>
           (\<forall>p\<in>set (data s). \<bar>getXVal s r - getXVal s q\<bar> \<le> \<bar>getXVal s p - getXVal s q\<bar>)"
proof -
  let ?i = "sortedIndex s q" and ?v = "getXVal s q" and ?n = "length (data s)"
  let ?x = "\<lambda>j. getXVal s (data s ! j)"
  have below: "?x j < ?v" if "j < ?i" for j
    using sortedIndexOf_below [OF srt, of j ?v] that by (simp add: sortedIndex_def)
  have above: "?v \<le> ?x j" if "?i \<le> j" "j < ?n" for j
    using sortedIndexOf_above [OF srt, of ?v j] that by (simp add: sortedIndex_def)
  have mono: "?x j \<le> ?x k" if "j \<le> k" "k < ?n" for j k
    using srt that by (simp add: sorted_iff_nth_mono)
  have le: "?i \<le> ?n" by (rule sortedIndex_le)
  have pos: "0 < ?n" using ne by simp
  have mem: "data s ! k \<in> set (data s)" if "k < ?n" for k
    using that by simp
  have key: "\<exists>r. nearestPoint s q = Some r \<and> r \<in> set (data s) \<and>
           (\<forall>j<?n. \<bar>getXVal s r - ?v\<bar> \<le> \<bar>?x j - ?v\<bar>)"
    using nearestPoint_cases [of s q, OF ne]
  proof (elim disjE conjE)
    assume i: "?i = 0" and r: "nearestPoint s q = Some (data s ! 0)"
    have "\<bar>?x 0 - ?v\<bar> \<le> \<bar>?x j - ?v\<bar>" if "j < ?n" for j
      using above [of 0] above [of j] mono [of 0 j] that i pos by simp
    then show ?thesis using r mem [OF pos] by auto
  next
    assume i: "?i = ?n" and r: "nearestPoint s q = Some (data s ! (?i - 1))"
    have "\<bar>?x (?n - 1) - ?v\<bar> \<le> \<bar>?x j - ?v\<bar>" if "j < ?n" for j
      using below [of "?n - 1"] below [of j] mono [of j "?n - 1"] that i pos by simp
    then show ?thesis using r i mem [of "?n - 1"] pos by auto
  next
    assume i: "0 < ?i" "?i < ?n"
      and closer: "?x ?i - ?v < ?v - ?x (?i - 1)"
      and r: "nearestPoint s q = Some (data s ! ?i)"
    have "\<bar>?x ?i - ?v\<bar> \<le> \<bar>?x j - ?v\<bar>" if j: "j < ?n" for j
    proof (cases "j < ?i")
      case True
      then have "j \<le> ?i - 1" by simp
      from mono [OF this] i have "?x j \<le> ?x (?i - 1)" by simp
      with below [of "?i - 1"] above [of ?i] closer i show ?thesis by simp
    next
      case False
      then have "?i \<le> j" by simp
      from mono [OF this j] above [of ?i] i show ?thesis by simp
    qed
    then show ?thesis using r mem [OF i(2)] by auto
  next
    assume i: "0 < ?i" "?i < ?n"
      and closer: "\<not> ?x ?i - ?v < ?v - ?x (?i - 1)"
      and r: "nearestPoint s q = Some (data s ! (?i - 1))"
    have "\<bar>?x (?i - 1) - ?v\<bar> \<le> \<bar>?x j - ?v\<bar>" if j: "j < ?n" for j
    proof (cases "j < ?i")
      case True
      then have "j \<le> ?i - 1" by simp
      from mono [OF this] i have "?x j \<le> ?x (?i - 1)" by simp
      with below [of "?i - 1"] i show ?thesis by simp
    next
      case False
      then have "?i \<le> j" by simp
      from mono [OF this j] above [of ?i] below [of "?i - 1"] closer i show ?thesis by simp
    qed
    then show ?thesis using r i mem [of "?i - 1"] by auto
  qed
  then obtain r where r: "nearestPoint s q = Some r" "r \<in> set (data s)"
    and best: "\<forall>j<?n. \<bar>getXVal s r - ?v\<bar> \<le> \<bar>?x j - ?v\<bar>"
    by blast
  have "\<forall>p\<in>set (data s). \<bar>getXVal s r - ?v\<bar> \<le> \<bar>getXVal s p - ?v\<bar>"
    using best by (auto simp: in_set_conv_nth)
  with r show ?thesis by auto
qed

lemma nearestPoint_neighbour:
  "nearestPoint s q = elemAt (data s) (int (sortedIndex s q) - 1) \<or>
   nearestPoint s q = elemAt (data s) (int (sortedIndex s q))"
  by (simp add: nearestPoint_def Let_def)

subsection \<open>Statistics as minimum and maximum\<close>

lemma statsFit_updateStats:
  assumes "finite Y" and "statsFit (stats s) Y"
  shows "statsFit (stats (updateStats s p)) (insert (getYVal s p) Y)"
proof (cases "stats s")
  case None
  with assms show ?thesis by (simp add: statsFit_def updateStats_def Let_def)
next
  case (Some st)
  with assms have Y: "Y \<noteq> {}" "minValue st = Min Y" "maxValue st = Max Y"
    by (simp_all add: statsFit_def)
  have "Min (insert (getYVal s p) Y) = min (getYVal s p) (Min Y)"
       "Max (insert (getYVal s p) Y) = max (getYVal s p) (Max Y)"
    using assms(1) Y(1) by simp_all
  with Some Y show ?thesis
    by (auto simp: statsFit_def updateStats_def Let_def min_def max_def)
qed

lemma statsFit_foldl_updateStats:
  "finite Y \<Longrightarrow> statsFit (stats s) Y
     \<Longrightarrow> statsFit (stats (foldl updateStats s ps)) (Y \<union> getYVal s ` set ps)"
proof (induction ps arbitrary: s Y)
  case Nil
  then show ?case by simp
next
  case (Cons p ps)
  have "statsFit (stats (foldl updateStats (updateStats s p) ps))
          (insert (getYVal s p) Y \<union> getYVal (updateStats s p) ` set ps)"
    using Cons.prems by (intro Cons.IH statsFit_updateStats) simp_all
  then show ?case by simp
qed

lemma resetStats_fits: "statsFit (stats (resetStats s)) (getYVal s ` set (data s))"
  using statsFit_foldl_updateStats [of "{}" "s\<lparr>stats := None\<rparr>" "data s"]
  by (simp add: resetStats_def statsFit_def)

lemma add_stats_and_points:
  "add s p b = s \<or>
   (stats (add s p b) = stats (updateStats s p) \<and>
    set (data (add s p b)) = insert p (set (data s)))"
proof (cases b)
  case True
  then show ?thesis by (simp add: add_append)
next
  case False
  show ?thesis
  proof (cases "xValAt s (int (sortedIndex s p)) = Some (getXVal s p)
     \<or> xValAt s (int (sortedIndex s p) - 1) = Some (getXVal s p)")
    case True
    with False show ?thesis by (simp add: add_rejected)
  next
    case rej: False
    have "set (take (sortedIndex s p) (data s)) \<union> set (drop (sortedIndex s p) (data s))
            = set (data s)"
      by (simp add: set_append [symmetric] del: set_append)
    with rej False show ?thesis by (auto simp: add_inserted)
  qed
qed

lemma add_keeps_statsFit:
  assumes "statsFit (stats s) (getYVal s ` set (data s))"
  shows "statsFit (stats (add s p b)) (getYVal s ` set (data (add s p b)))"
  using add_stats_and_points [of s p b]
proof
  assume "add s p b = s"
  with assms show ?thesis by simp
next
  assume "stats (add s p b) = stats (updateStats s p) \<and>
    set (data (add s p b)) = insert p (set (data s))"
  with statsFit_updateStats [OF _ assms, of p] show ?thesis by simp
qed

lemma reset_None: "reset s None = s\<lparr>data := [], stats := None, emitted := emitted s @ [EvReset]\<rparr>"
  by (simp add: reset_def Let_def resetStats_def)

lemma reset_statsFit: "statsFit (stats (reset s nd)) (getYVal s ` set (data (reset s nd)))"
proof (cases nd)
  case None
  then show ?thesis by (simp add: reset_None statsFit_def)
next
  case (Some ps)
  with resetStats_fits [of "s\<lparr>data := ps\<rparr>"] show ?thesis
    by (simp add: reset_seed_data reset_seed_stats)
qed

lemma perform_frame [simp]:
  "getXVal (perform s op) = getXVal s"
  "getYVal (perform s op) = getYVal s"
  by (cases op; simp)+

lemma run_frame [simp]:
  "getXVal (run s ops) = getXVal s"
  "getYVal (run s ops) = getYVal s"
  by (induction ops arbitrary: s; simp add: run_def)+

lemma perform_keeps_statsFit:
  "\<not> isRemove op \<Longrightarrow> statsFit (stats s) (getYVal s ` set (data s))
     \<Longrightarrow> statsFit (stats (perform s op)) (getYVal s ` set (data (perform s op)))"
  by (cases op) (simp_all add: add_keeps_statsFit reset_statsFit)

lemma run_keeps_statsFit:
  "list_all (\<lambda>op. \<not> isRemove op) ops \<Longrightarrow> statsFit (stats s) (getYVal s ` set (data s))
     \<Longrightarrow> statsFit (stats (run s ops)) (getYVal s ` set (data (run s ops)))"
proof (induction ops arbitrary: s)
  case Nil
  then show ?case by (simp add: run_def)
next
  case (Cons op ops)
  have "statsFit (stats (perform s op)) (getYVal s ` set (data (perform s op)))"
    using Cons.prems by (intro perform_keeps_statsFit) simp_all
  then have "statsFit (stats (perform s op))
               (getYVal (perform s op) ` set (data (perform s op)))"
    by simp
  from Cons.IH [OF _ this] Cons.prems(1) show ?case by (simp add: run_def)
qed

subsection \<open>Field by field, for closed instances\<close>

lemma add_False_stats_eq:
  "stats (add s p False) =
     (if xValAt s (int (sortedIndex s p)) = Some (getXVal s p)
         \<or> xValAt s (int (sortedIndex s p) - 1) = Some (getXVal s p)
      then stats s
      else stats (updateStats s p))"
  by (simp add: add_rejected add_inserted)

lemma updateStats_stats_eq:
  "stats (updateStats s p) =
     (case stats s of
        None \<Rightarrow> Some \<lparr>minValue = getYVal s p, minPoint = p,
                       maxValue = getYVal s p, maxPoint = p\<rparr>
      | Some st \<Rightarrow>
          Some (if maxValue st < getYVal s p
                then (if minValue st > getYVal s p
                      then st\<lparr>maxValue := getYVal s p, maxPoint := p,
                              minValue := getYVal s p, minPoint := p\<rparr>
                      else st\<lparr>maxValue := getYVal s p, maxPoint := p\<rparr>)
                else if minValue st > getYVal s p
                then st\<lparr>minValue := getYVal s p, minPoint := p\<rparr>
                else st))"
  by (auto simp: updateStats_def Let_def split: option.splits)

lemma remove_data_eq:
  "data (remove s p) = splice_js (data s) (indexOf (data s) p) (Suc 0) []"
  by (simp add: remove_def Let_def)

lemma remove_emitted_eq:
  "emitted (remove s p) = emitted s @ [EvRemove p (indexOf (data s) p)]"
  by (simp add: remove_def Let_def)

subsection \<open>The two branches of a purge\<close>

lemma purge_reset_branch:
  assumes "1000 \<le> int (sortedIndexOf s (rmin r))
             + (int (length (data s)) - int (sortedIndexOf s (rmax r) + 1) + 1)"
  shows "purgeRecordsOutsideRange s r =
           reset s (Some (slice (data s) (sortedIndexOf s (rmin r))
                                         (sortedIndexOf s (rmax r) + 1)))"
  using assms by (simp add: purgeRecordsOutsideRange_def Let_def)

lemma purge_remove_branch:
  assumes "0 < int (sortedIndexOf s (rmin r))
             + (int (length (data s)) - int (sortedIndexOf s (rmax r) + 1) + 1)"
    and "int (sortedIndexOf s (rmin r))
             + (int (length (data s)) - int (sortedIndexOf s (rmax r) + 1) + 1) < 1000"
    and "s1 = foldl remove s (slice (data s) 0 (sortedIndexOf s (rmin r)))"
  shows "purgeRecordsOutsideRange s r =
           resetStats (foldl remove s1
             (slice (data s1) (sortedIndexOf s (rmax r) + 1) (length (data s1))))"
  using assms by (simp add: purgeRecordsOutsideRange_def Let_def)

lemma ticks_outside_count:
  "length (filter (\<lambda>p. utc p < 0 \<or> 0 < utc p) (ticks n)) = n - 1"
  by (induction n) (auto simp: ticks_def)

lemma ticks_outside: "length (filter (\<lambda>p. utc p < 0 \<or> 0 < utc p) (ticks 1000)) = 999"
  by (simp add: ticks_outside_count)

lemma ticks_index: "sortedIndexOf (seeded (ticks 1000)) 0 = 0"
  by (simp add: sortedIndexOf_def ticks_def binaryIndexBy_step)

subsection \<open>Removing a prefix or a suffix of distinct points\<close>

lemma remove_at_boundary:
  assumes "data s = xs @ y # ys" and "y \<notin> set xs"
  shows "data (remove s y) = xs @ ys"
proof -
  have "indexOf (data s) y = int (length xs)"
    using assms by (simp add: indexOf_found takeWhile_append2 [of xs] takeWhile_append)
  then show ?thesis
    using assms(1) by (simp add: remove_data_eq splice_delete)
qed

lemma foldl_remove_prefix:
  "data s = xs @ ys \<Longrightarrow> distinct xs \<Longrightarrow> data (foldl remove s xs) = ys"
proof (induction xs arbitrary: s)
  case Nil
  then show ?case by simp
next
  case (Cons x xs)
  have "data (remove s x) = [] @ (xs @ ys)"
    by (rule remove_at_boundary) (use Cons.prems in simp_all)
  then have "data (foldl remove (remove s x) xs) = ys"
    using Cons.prems by (intro Cons.IH) simp_all
  then show ?case by simp
qed

lemma foldl_remove_suffix:
  "data s = xs @ ys \<Longrightarrow> distinct (xs @ ys) \<Longrightarrow> data (foldl remove s ys) = xs"
proof (induction ys arbitrary: s)
  case Nil
  then show ?case by simp
next
  case (Cons y ys)
  have "data (remove s y) = xs @ ys"
    by (rule remove_at_boundary) (use Cons.prems in auto)
  then have "data (foldl remove (remove s y) ys) = xs"
    using Cons.prems by (intro Cons.IH) simp_all
  then show ?case by simp
qed

lemma foldl_remove_events:
  "length (filter isRemoveEvent (emitted (foldl remove s ps)))
     = length (filter isRemoveEvent (emitted s)) + length ps"
  by (induction ps arbitrary: s) (simp_all add: remove_emitted_eq)

lemma seeded_no_remove_events: "filter isRemoveEvent (emitted (seeded ps)) = []"
  by (simp add: seeded_emitted filter_map o_def case_prod_beta)

subsection \<open>The concrete arrays\<close>

lemma decades_outside_count:
  "length (filter (\<lambda>p. utc p < 5 \<or> 15 < utc p) (decades n))
     = (if n \<le> 1 then n else n - 1)"
  by (induction n) (auto simp: decades_def)

lemma decades_outside:
  "length (filter (\<lambda>p. utc p < 5 \<or> 15 < utc p) (decades 1000)) = 999"
  by (simp add: decades_outside_count)

lemma decades_window:
  "take 3 (drop 1 (decades 1000)) = [Datum 1 10 0, Datum 2 20 0, Datum 3 30 0]"
proof -
  have "take 3 (drop 1 (decades 1000)) = map (\<lambda>i. Datum i (10 * int i) 0) [1..<4]"
    by (simp del: upt_rec_numeral add: decades_def take_map drop_map)
  then show ?thesis by (simp add: upt_conv_Cons)
qed

lemma decades_distinct: "distinct (decades n)"
  by (simp add: decades_def distinct_map inj_on_def)

lemma decades_index:
  "sortedIndexOf (seeded (decades 1000)) 5 = 1"
  "sortedIndexOf (seeded (decades 1000)) 15 = 2"
  by (simp_all add: sortedIndexOf_def decades_def binaryIndexBy_step)

lemma decades_purge:
  "length (filter isRemoveEvent
      (emitted (purgeRecordsOutsideRange (seeded (decades 1000)) \<lparr>rmin = 5, rmax = 15\<rparr>))) = 997"
  "data (purgeRecordsOutsideRange (seeded (decades 1000)) \<lparr>rmin = 5, rmax = 15\<rparr>)
     = [Datum 1 10 0, Datum 2 20 0, Datum 3 30 0]"
proof -
  let ?s = "seeded (decades 1000)" and ?r = "\<lparr>rmin = 5, rmax = 15\<rparr>"
  define s1 where "s1 = foldl remove ?s (slice (data ?s) 0 (sortedIndexOf ?s (rmin ?r)))"
  have len: "length (decades 1000) = 1000" by (simp add: decades_def)
  have split: "data ?s = take 1 (decades 1000) @ drop 1 (decades 1000)" by simp
  have "data (foldl remove ?s (take 1 (decades 1000))) = drop 1 (decades 1000)"
    using split by (rule foldl_remove_prefix) (simp add: decades_distinct)
  then have s1: "data s1 = drop 1 (decades 1000)"
    unfolding s1_def by (simp add: decades_index slice_def)
  have ev1: "length (filter isRemoveEvent (emitted s1)) = 1"
    unfolding s1_def
    by (simp add: foldl_remove_events seeded_no_remove_events decades_index slice_def len)
  have branch: "purgeRecordsOutsideRange ?s ?r =
           resetStats (foldl remove s1
             (slice (data s1) (sortedIndexOf ?s (rmax ?r) + 1) (length (data s1))))"
    by (rule purge_remove_branch) (simp_all add: decades_index s1_def len)
  have "slice (data s1) (sortedIndexOf ?s (rmax ?r) + 1) (length (data s1))
              = drop 3 (data s1)"
    by (simp add: slice_def decades_index)
  with branch have branch': "purgeRecordsOutsideRange ?s ?r =
           resetStats (foldl remove s1 (drop 3 (data s1)))"
    by simp
  have split2: "data s1 = take 3 (data s1) @ drop 3 (data s1)" by simp
  have "distinct (data s1)" unfolding s1 by (simp add: decades_distinct)
  then have "distinct (take 3 (data s1) @ drop 3 (data s1))" by simp
  with split2 have "data (foldl remove s1 (drop 3 (data s1))) = take 3 (data s1)"
    by (rule foldl_remove_suffix)
  moreover have "take 3 (data s1) = [Datum 1 10 0, Datum 2 20 0, Datum 3 30 0]"
    unfolding s1 by (rule decades_window)
  ultimately show "data (purgeRecordsOutsideRange ?s ?r)
     = [Datum 1 10 0, Datum 2 20 0, Datum 3 30 0]"
    by (simp add: branch')
  have "length (drop 3 (data s1)) = 996" unfolding s1 by (simp add: len)
  then show "length (filter isRemoveEvent (emitted (purgeRecordsOutsideRange ?s ?r))) = 997"
    by (simp add: branch' foldl_remove_events ev1)
qed

section \<open>The claims\<close>

text \<open>
  C1. The claim: after \<^verbatim>\<open>purgeRecordsOutsideRange({min, max})\<close> every remaining
  point has its x value in [min, max], and every point that was in the range is still
  stored, whichever strategy ran. The code leaves points outside the range; it is
  evaluated here at two inputs. Purging the buffer with x values 1 to 6 to the range
  [3, 4] takes the branch of single removals: the two points below 3 are removed, and then
  \<^verbatim>\<open>this.data.slice(endIndex, ...)\<close> is taken of the shortened array with the index 4
  computed for the old one, so it is empty and the points at 5 and 6 stay. Purging the
  buffer with x values 1, 5, 10 to the range [2, 6] leaves the point at 10:
  \<^verbatim>\<open>endIndex\<close> is one past the insertion index of 6, where no point has x = 6.
\<close>

theorem purge_leaves_points_outside_range:
  "map utc (data (purgeRecordsOutsideRange
      (seeded [Datum 1 1 0, Datum 2 2 0, Datum 3 3 0, Datum 4 4 0, Datum 5 5 0, Datum 6 6 0])
      \<lparr>rmin = 3, rmax = 4\<rparr>)) = [3, 4, 5, 6] \<and>
   map utc (data (purgeRecordsOutsideRange
      (seeded [Datum 0 1 0, Datum 1 5 0, Datum 2 10 0]) \<lparr>rmin = 2, rmax = 6\<rparr>)) = [5, 10]"
proof -
  let ?s = "seeded [Datum 1 1 0, Datum 2 2 0, Datum 3 3 0, Datum 4 4 0, Datum 5 5 0, Datum 6 6 0]"
  let ?r = "\<lparr>rmin = 3, rmax = 4\<rparr>"
  have a: "sortedIndexOf ?s (rmin ?r) = 2" and b: "sortedIndexOf ?s (rmax ?r) = 3"
    by (simp_all add: sortedIndexOf_def binaryIndexBy_step)
  define s1 where "s1 = foldl remove ?s (slice (data ?s) 0 (sortedIndexOf ?s (rmin ?r)))"
  have s1: "data s1 = [Datum 3 3 0, Datum 4 4 0, Datum 5 5 0, Datum 6 6 0]"
    unfolding s1_def using a
    by (simp add: remove_data_eq slice_def indexOf_def splice_js_def)
  have "purgeRecordsOutsideRange ?s ?r =
           resetStats (foldl remove s1
             (slice (data s1) (sortedIndexOf ?s (rmax ?r) + 1) (length (data s1))))"
    using a b by (intro purge_remove_branch) (simp_all add: s1_def)
  then have first: "data (purgeRecordsOutsideRange ?s ?r)
                      = [Datum 3 3 0, Datum 4 4 0, Datum 5 5 0, Datum 6 6 0]"
    using b s1 by (simp add: slice_def)
  let ?t = "seeded [Datum 0 1 0, Datum 1 5 0, Datum 2 10 0]"
  let ?q = "\<lparr>rmin = 2, rmax = 6\<rparr>"
  have c: "sortedIndexOf ?t (rmin ?q) = 1" and d: "sortedIndexOf ?t (rmax ?q) = 2"
    by (simp_all add: sortedIndexOf_def binaryIndexBy_step)
  define t1 where "t1 = foldl remove ?t (slice (data ?t) 0 (sortedIndexOf ?t (rmin ?q)))"
  have t1: "data t1 = [Datum 1 5 0, Datum 2 10 0]"
    unfolding t1_def using c
    by (simp add: remove_data_eq slice_def indexOf_def splice_js_def)
  have "purgeRecordsOutsideRange ?t ?q =
           resetStats (foldl remove t1
             (slice (data t1) (sortedIndexOf ?t (rmax ?q) + 1) (length (data t1))))"
    using c d by (intro purge_remove_branch) (simp_all add: t1_def)
  then have second: "data (purgeRecordsOutsideRange ?t ?q) = [Datum 1 5 0, Datum 2 10 0]"
    using d t1 by (simp add: slice_def)
  from first second show ?thesis by simp
qed

text \<open>
  C2. The claim: when exactly 999 stored points lie outside the range, the purge
  removes them by 999 single \<^verbatim>\<open>remove\<close> calls, each with its event, and one
  \<^verbatim>\<open>resetStats\<close>; with 1000 or more it resets once. The code does not do the first;
  it is evaluated here at two inputs, each with exactly 999 stored points outside the
  range.

  The buffer with the x values 0 to 999 is purged to the range [0, 0].
  \<^verbatim>\<open>pointsToRemove\<close> counts the point at x = 0 too and is 1000, so the reset branch
  runs: the events emitted are one \<^verbatim>\<open>reset\<close> and the \<^verbatim>\<open>add\<close> of the retained
  point, and no \<^verbatim>\<open>remove\<close>.

  The buffer with the x values 0, 10, ..., 9990 is purged to the range [5, 15].
  \<^verbatim>\<open>pointsToRemove\<close> is 999 and the branch of single removals runs, but it emits 997
  \<^verbatim>\<open>remove\<close> events: the suffix is sliced from the shortened array at the index
  computed for the old one, and the points at 20 and 30 stay.
\<close>

theorem purge_999_outside_strategy:
  "length (filter (\<lambda>p. utc p < 0 \<or> 0 < utc p) (data (seeded (ticks 1000)))) = 999 \<and>
   emitted (purgeRecordsOutsideRange (seeded (ticks 1000)) \<lparr>rmin = 0, rmax = 0\<rparr>)
     = emitted (seeded (ticks 1000)) @ [EvReset, EvAdd (Datum 0 0 0) 0] \<and>
   data (purgeRecordsOutsideRange (seeded (ticks 1000)) \<lparr>rmin = 0, rmax = 0\<rparr>)
     = [Datum 0 0 0] \<and>
   length (filter (\<lambda>p. utc p < 5 \<or> 15 < utc p) (data (seeded (decades 1000)))) = 999 \<and>
   length (filter isRemoveEvent
      (emitted (purgeRecordsOutsideRange (seeded (decades 1000)) \<lparr>rmin = 5, rmax = 15\<rparr>)))
     = 997 \<and>
   data (purgeRecordsOutsideRange (seeded (decades 1000)) \<lparr>rmin = 5, rmax = 15\<rparr>)
     = [Datum 1 10 0, Datum 2 20 0, Datum 3 30 0]"
proof -
  let ?s = "seeded (ticks 1000)" and ?r = "\<lparr>rmin = 0, rmax = 0\<rparr>"
  have kept: "slice (data ?s) 0 (Suc 0) = [Datum 0 0 0]"
    by (simp add: slice_def ticks_def take_map)
  have "purgeRecordsOutsideRange ?s ?r =
           reset ?s (Some (slice (data ?s) (sortedIndexOf ?s (rmin ?r))
                                           (sortedIndexOf ?s (rmax ?r) + 1)))"
    by (rule purge_reset_branch) (simp add: ticks_index ticks_def)
  then have "purgeRecordsOutsideRange ?s ?r = reset ?s (Some [Datum 0 0 0])"
    using kept by (simp add: ticks_index)
  then show ?thesis
    by (simp add: reset_seed_emitted reset_seed_data ticks_outside decades_outside
          decades_purge)
qed




text \<open>
  C4. Starting from an empty buffer, after any sequence of \<^verbatim>\<open>add(point)\<close> calls
  (not append-only), in any order of arrival, the points are strictly ascending by x
  value. The sequence \<open>points\<close> is arbitrary, so the statement covers the buffer after
  each call.
\<close>

theorem adds_strictly_ascending:
  assumes "data s = []"
  shows "sorted_wrt (<)
           (map (getXVal s) (data (foldl (\<lambda>t point. add t point False) s points)))"
  using assms adds_keep_strictly_sorted [of s points] by simp

theorem adds_strictly_ascending_witness:
  "data plot = [] \<and>
   sorted_wrt (<) (map utc (data (foldl (\<lambda>t point. add t point False) plot
      [Datum 0 5 1, Datum 1 1 2, Datum 2 5 3, Datum 3 3 0]))) \<and>
   data (foldl (\<lambda>t point. add t point False) plot
      [Datum 0 5 1, Datum 1 1 2, Datum 2 5 3, Datum 3 3 0])
     = [Datum 1 1 2, Datum 3 3 0, Datum 0 5 1]"
proof -
  have empty: "data plot = []" by simp
  have "data (foldl (\<lambda>t point. add t point False) plot
      [Datum 0 5 1, Datum 1 1 2, Datum 2 5 3, Datum 3 3 0])
     = [Datum 1 1 2, Datum 3 3 0, Datum 0 5 1]"
    by (simp add: add_False_data_eq sortedIndex_def sortedIndexOf_def binaryIndexBy_step
          xValAt_def elemAt_def)
  with empty adds_strictly_ascending [OF empty, of "[Datum 0 5 1, Datum 1 1 2, Datum 2 5 3, Datum 3 3 0]"]
  show ?thesis by simp
qed

text \<open>
  C5, as stated: after every sequence of add, remove and reset operations the statistics
  are the true minimum and maximum. They are not: after adding samples 1 and 5 and
  removing the point with sample 5, the only stored sample is 1 and \<^verbatim>\<open>maxValue\<close> is
  still 5.
\<close>

theorem stats_after_remove_counterexample:
  "stats (run plot [DoAdd (Datum 0 1 1) False, DoAdd (Datum 1 2 5) False,
                    DoRemove (Datum 1 2 5)])
     = Some \<lparr>minValue = 1, minPoint = Datum 0 1 1, maxValue = 5, maxPoint = Datum 1 2 5\<rparr> \<and>
   data (run plot [DoAdd (Datum 0 1 1) False, DoAdd (Datum 1 2 5) False,
                   DoRemove (Datum 1 2 5)]) = [Datum 0 1 1] \<and>
   Max (val ` set (data (run plot [DoAdd (Datum 0 1 1) False, DoAdd (Datum 1 2 5) False,
                                   DoRemove (Datum 1 2 5)]))) = 1"
proof -
  define s1 where "s1 = add plot (Datum 0 1 1) False"
  have s1: "data s1 = [Datum 0 1 1]" "getXVal s1 = utc" "getYVal s1 = val"
    "stats s1 = Some \<lparr>minValue = 1, minPoint = Datum 0 1 1,
                       maxValue = 1, maxPoint = Datum 0 1 1\<rparr>"
    unfolding s1_def
    by (simp_all add: add_False_stats_eq add_False_data_eq updateStats_stats_eq
          sortedIndex_def sortedIndexOf_def binaryIndexBy_step xValAt_def elemAt_def)
  define s2 where "s2 = add s1 (Datum 1 2 5) False"
  have s2: "data s2 = [Datum 0 1 1, Datum 1 2 5]"
    "stats s2 = Some \<lparr>minValue = 1, minPoint = Datum 0 1 1,
                       maxValue = 5, maxPoint = Datum 1 2 5\<rparr>"
    unfolding s2_def using s1
    by (simp_all add: add_False_stats_eq add_False_data_eq updateStats_stats_eq
          sortedIndex_def sortedIndexOf_def binaryIndexBy_step xValAt_def elemAt_def)
  define s3 where "s3 = remove s2 (Datum 1 2 5)"
  have s3: "data s3 = [Datum 0 1 1]"
    "stats s3 = Some \<lparr>minValue = 1, minPoint = Datum 0 1 1,
                       maxValue = 5, maxPoint = Datum 1 2 5\<rparr>"
    unfolding s3_def using s2
    by (simp_all add: remove_data_eq indexOf_def splice_js_def)
  have "run plot [DoAdd (Datum 0 1 1) False, DoAdd (Datum 1 2 5) False,
                  DoRemove (Datum 1 2 5)] = s3"
    by (simp add: run_def s1_def s2_def s3_def)
  with s3 show ?thesis by simp
qed

text \<open>
  C5, amended: after every sequence of add (in either mode) and reset operations on a new
  series, with no remove among them, the statistics when present are the true minimum
  and maximum of the y values of the stored points, and the buffer is not empty.
\<close>

theorem stats_exact_without_remove:
  assumes "list_all (\<lambda>op. \<not> isRemove op) ops"
    and "stats (run (newSeries gx gy ev) ops) = Some st"
  shows "data (run (newSeries gx gy ev) ops) \<noteq> [] \<and>
         minValue st = Min (gy ` set (data (run (newSeries gx gy ev) ops))) \<and>
         maxValue st = Max (gy ` set (data (run (newSeries gx gy ev) ops)))"
proof -
  let ?s = "newSeries gx gy ev"
  have "statsFit (stats ?s) (getYVal ?s ` set (data ?s))"
    by (simp add: newSeries_def statsFit_def)
  from run_keeps_statsFit [OF assms(1) this] assms(2) show ?thesis
    by (simp add: statsFit_def newSeries_def)
qed

theorem stats_exact_without_remove_witness:
  "list_all (\<lambda>op. \<not> isRemove op)
     [DoAdd (Datum 0 4 3) False, DoReset (Some [Datum 1 1 8, Datum 2 2 6]),
      DoAdd (Datum 3 0 7) False, DoAdd (Datum 4 9 2) True] \<and>
   stats (run (newSeries utc val (\<lambda>p. 100 < val p))
     [DoAdd (Datum 0 4 3) False, DoReset (Some [Datum 1 1 8, Datum 2 2 6]),
      DoAdd (Datum 3 0 7) False, DoAdd (Datum 4 9 2) True])
     = Some \<lparr>minValue = 2, minPoint = Datum 4 9 2, maxValue = 8, maxPoint = Datum 1 1 8\<rparr> \<and>
   2 = Min (val ` set (data (run (newSeries utc val (\<lambda>p. 100 < val p))
     [DoAdd (Datum 0 4 3) False, DoReset (Some [Datum 1 1 8, Datum 2 2 6]),
      DoAdd (Datum 3 0 7) False, DoAdd (Datum 4 9 2) True]))) \<and>
   8 = Max (val ` set (data (run (newSeries utc val (\<lambda>p. 100 < val p))
     [DoAdd (Datum 0 4 3) False, DoReset (Some [Datum 1 1 8, Datum 2 2 6]),
      DoAdd (Datum 3 0 7) False, DoAdd (Datum 4 9 2) True])))"
proof -
  let ?ops = "[DoAdd (Datum 0 4 3) False, DoReset (Some [Datum 1 1 8, Datum 2 2 6]),
      DoAdd (Datum 3 0 7) False, DoAdd (Datum 4 9 2) True]"
  have h1: "list_all (\<lambda>op. \<not> isRemove op) ?ops" by simp
  define s1 where "s1 = add (newSeries utc val (\<lambda>p. 100 < val p)) (Datum 0 4 3) False"
  define s2 where "s2 = reset s1 (Some [Datum 1 1 8, Datum 2 2 6])"
  have s2: "data s2 = [Datum 1 1 8, Datum 2 2 6]" "getXVal s2 = utc" "getYVal s2 = val"
    "stats s2 = Some \<lparr>minValue = 6, minPoint = Datum 2 2 6,
                       maxValue = 8, maxPoint = Datum 1 1 8\<rparr>"
    unfolding s2_def s1_def
    by (simp_all add: reset_seed_data reset_seed_stats resetStats_def updateStats_stats_eq
          newSeries_def)
  define s3 where "s3 = add s2 (Datum 3 0 7) False"
  have s3: "data s3 = [Datum 3 0 7, Datum 1 1 8, Datum 2 2 6]" "getYVal s3 = val"
    "stats s3 = Some \<lparr>minValue = 6, minPoint = Datum 2 2 6,
                       maxValue = 8, maxPoint = Datum 1 1 8\<rparr>"
    unfolding s3_def using s2
    by (simp_all add: add_False_stats_eq add_False_data_eq updateStats_stats_eq
          sortedIndex_def sortedIndexOf_def binaryIndexBy_step xValAt_def elemAt_def)
  define s4 where "s4 = add s3 (Datum 4 9 2) True"
  have s4: "stats s4 = Some \<lparr>minValue = 2, minPoint = Datum 4 9 2,
                              maxValue = 8, maxPoint = Datum 1 1 8\<rparr>"
    unfolding s4_def using s3 by (simp add: add_append updateStats_stats_eq)
  have "run (newSeries utc val (\<lambda>p. 100 < val p)) ?ops = s4"
    by (simp add: run_def s1_def s2_def s3_def s4_def)
  with s4 have h2: "stats (run (newSeries utc val (\<lambda>p. 100 < val p)) ?ops)
     = Some \<lparr>minValue = 2, minPoint = Datum 4 9 2, maxValue = 8, maxPoint = Datum 1 1 8\<rparr>"
    by simp
  from stats_exact_without_remove [OF h1 h2] h1 h2 show ?thesis by simp
qed

text \<open>
  C6, as stated: for every non-empty buffer \<^verbatim>\<open>nearestPoint\<close> returns a stored point
  at minimal distance. It does not on a buffer that is out of order: after the
  append-only adds of points with x values 5, 1 and 9, the binary search for x value 1
  ends at index 0, and the point with x value 5 is returned, at distance 4, although
  the stored point with x value 1 is at distance 0.
\<close>

theorem nearestPoint_unsorted_counterexample:
  "data (add (add (add plot (Datum 0 5 0) True) (Datum 1 1 0) True) (Datum 2 9 0) True)
     = [Datum 0 5 0, Datum 1 1 0, Datum 2 9 0] \<and>
   nearestPoint (add (add (add plot (Datum 0 5 0) True) (Datum 1 1 0) True) (Datum 2 9 0) True)
       (Datum 3 1 0) = Some (Datum 0 5 0) \<and>
   \<bar>utc (Datum 1 1 0) - utc (Datum 3 1 0)\<bar> < \<bar>utc (Datum 0 5 0) - utc (Datum 3 1 0)\<bar>"
proof -
  define s3 where
    "s3 = add (add (add plot (Datum 0 5 0) True) (Datum 1 1 0) True) (Datum 2 9 0) True"
  have s3: "data s3 = [Datum 0 5 0, Datum 1 1 0, Datum 2 9 0]" "getXVal s3 = utc"
    unfolding s3_def by (simp_all add: add_append)
  have idx: "sortedIndex s3 (Datum 3 1 0) = 0"
    using s3 by (simp add: sortedIndex_def sortedIndexOf_def binaryIndexBy_step)
  have "nearestPoint s3 (Datum 3 1 0) = Some (Datum 0 5 0)"
    using s3 idx by (simp add: nearestPoint_def Let_def elemAt_def)
  with s3 show ?thesis unfolding s3_def by simp
qed

text \<open>
  C6, amended. On a buffer whose points are ascending by x value (the invariant of the
  data model): for the empty buffer \<^verbatim>\<open>nearestPoint\<close> returns \<^verbatim>\<open>undefined\<close>; for a
  non-empty one it returns a stored point, which is the element before the insertion
  index or the one at it, and no stored point is nearer to the query in x than it.
\<close>

theorem nearestPoint_minimal_distance:
  assumes "sorted (map (getXVal s) (data s))"
  shows "(data s = [] \<longrightarrow> nearestPoint s q = None) \<and>
         (data s \<noteq> [] \<longrightarrow>
            (\<exists>r. nearestPoint s q = Some r \<and> r \<in> set (data s) \<and>
                 (Some r = elemAt (data s) (int (sortedIndex s q) - 1) \<or>
                  Some r = elemAt (data s) (int (sortedIndex s q))) \<and>
                 (\<forall>p\<in>set (data s).
                    \<bar>getXVal s r - getXVal s q\<bar> \<le> \<bar>getXVal s p - getXVal s q\<bar>)))"
proof (intro conjI impI)
  assume "data s = []"
  then show "nearestPoint s q = None" by (rule nearestPoint_empty)
next
  assume "data s \<noteq> []"
  from nearestPoint_is_nearest [OF assms this, of q] obtain r where
    r: "nearestPoint s q = Some r" "r \<in> set (data s)"
      "\<forall>p\<in>set (data s). \<bar>getXVal s r - getXVal s q\<bar> \<le> \<bar>getXVal s p - getXVal s q\<bar>"
    by blast
  from nearestPoint_neighbour [of s q] r(1)
  have "Some r = elemAt (data s) (int (sortedIndex s q) - 1) \<or>
        Some r = elemAt (data s) (int (sortedIndex s q))"
    by auto
  with r show "\<exists>r. nearestPoint s q = Some r \<and> r \<in> set (data s) \<and>
                 (Some r = elemAt (data s) (int (sortedIndex s q) - 1) \<or>
                  Some r = elemAt (data s) (int (sortedIndex s q))) \<and>
                 (\<forall>p\<in>set (data s).
                    \<bar>getXVal s r - getXVal s q\<bar> \<le> \<bar>getXVal s p - getXVal s q\<bar>)"
    by blast
qed

theorem nearestPoint_minimal_distance_witness:
  "nearestPoint (seeded [Datum 0 1 0, Datum 1 5 0, Datum 2 10 0]) (Datum 9 4 0)
     = Some (Datum 1 5 0) \<and>
   nearestPoint (seeded [Datum 0 1 0, Datum 1 5 0, Datum 2 10 0]) (Datum 9 6 0)
     = Some (Datum 1 5 0) \<and>
   nearestPoint (seeded []) (Datum 9 6 0) = None"
proof -
  let ?s = "seeded [Datum 0 1 0, Datum 1 5 0, Datum 2 10 0]"
  have srt: "sorted (map (getXVal ?s) (data ?s))" by simp
  have ne: "data ?s \<noteq> []" by simp
  from nearestPoint_minimal_distance [OF srt, of "Datum 9 4 0"] ne
  obtain r where r: "nearestPoint ?s (Datum 9 4 0) = Some r" "r \<in> set (data ?s)"
    and best: "\<forall>p\<in>set (data ?s).
        \<bar>getXVal ?s r - getXVal ?s (Datum 9 4 0)\<bar> \<le> \<bar>getXVal ?s p - getXVal ?s (Datum 9 4 0)\<bar>"
    by blast
  from best have "\<bar>utc r - 4\<bar> \<le> 1" by simp
  with r(2) have four: "r = Datum 1 5 0" by auto
  from nearestPoint_minimal_distance [OF srt, of "Datum 9 6 0"] ne
  obtain r' where r': "nearestPoint ?s (Datum 9 6 0) = Some r'" "r' \<in> set (data ?s)"
    and best': "\<forall>p\<in>set (data ?s).
        \<bar>getXVal ?s r' - getXVal ?s (Datum 9 6 0)\<bar> \<le> \<bar>getXVal ?s p - getXVal ?s (Datum 9 6 0)\<bar>"
    by blast
  from best' have "\<bar>utc r' - 6\<bar> \<le> 1" by simp
  with r'(2) have six: "r' = Datum 1 5 0" by auto
  have srt0: "sorted (map (getXVal (seeded [])) (data (seeded [])))" by simp
  from nearestPoint_minimal_distance [OF srt0, of "Datum 9 6 0"]
  have none: "nearestPoint (seeded []) (Datum 9 6 0) = None" by simp
  from r(1) four r'(1) six none show ?thesis by simp
qed

text \<open>
  C7, as stated: on an exact tie \<^verbatim>\<open>nearestPoint\<close> returns the successor. It does not:
  in the buffer with x values 1 and 5, the query at 3 has insertion index 1, both
  neighbours at distance 2, and the result is the predecessor.
\<close>

theorem nearestPoint_tie_counterexample:
  "sortedIndex (seeded [Datum 0 1 0, Datum 1 5 0]) (Datum 2 3 0) = 1 \<and>
   elemAt (data (seeded [Datum 0 1 0, Datum 1 5 0])) 0 = Some (Datum 0 1 0) \<and>
   elemAt (data (seeded [Datum 0 1 0, Datum 1 5 0])) 1 = Some (Datum 1 5 0) \<and>
   utc (Datum 2 3 0) - utc (Datum 0 1 0) = utc (Datum 1 5 0) - utc (Datum 2 3 0) \<and>
   nearestPoint (seeded [Datum 0 1 0, Datum 1 5 0]) (Datum 2 3 0) = Some (Datum 0 1 0) \<and>
   nearestPoint (seeded [Datum 0 1 0, Datum 1 5 0]) (Datum 2 3 0) \<noteq> Some (Datum 1 5 0)"
  by (simp add: nearestPoint_def Let_def sortedIndex_def sortedIndexOf_def
        binaryIndexBy_step elemAt_def)

text \<open>
  C7, amended: when both neighbours of the insertion index exist and the query is
  equally far from both, \<^verbatim>\<open>nearestPoint\<close> returns the predecessor (the comparison
  \<^verbatim>\<open>highDistance < lowDistance\<close> is strict and the successor is its true branch).
\<close>

theorem nearestPoint_tie_predecessor:
  assumes "elemAt (data s) (int (sortedIndex s q) - 1) = Some lowPoint"
    and "elemAt (data s) (int (sortedIndex s q)) = Some highPoint"
    and "getXVal s q - getXVal s lowPoint = getXVal s highPoint - getXVal s q"
  shows "nearestPoint s q = Some lowPoint"
  using assms by (simp add: nearestPoint_def Let_def)

theorem nearestPoint_tie_predecessor_witness:
  "elemAt (data (seeded [Datum 0 1 0, Datum 1 5 0]))
     (int (sortedIndex (seeded [Datum 0 1 0, Datum 1 5 0]) (Datum 2 3 0)) - 1)
     = Some (Datum 0 1 0) \<and>
   elemAt (data (seeded [Datum 0 1 0, Datum 1 5 0]))
     (int (sortedIndex (seeded [Datum 0 1 0, Datum 1 5 0]) (Datum 2 3 0)))
     = Some (Datum 1 5 0) \<and>
   nearestPoint (seeded [Datum 0 1 0, Datum 1 5 0]) (Datum 2 3 0) = Some (Datum 0 1 0)"
proof -
  let ?s = "seeded [Datum 0 1 0, Datum 1 5 0]"
  have i: "sortedIndex ?s (Datum 2 3 0) = 1"
    by (simp add: sortedIndex_def sortedIndexOf_def binaryIndexBy_step)
  have low: "elemAt (data ?s) (int (sortedIndex ?s (Datum 2 3 0)) - 1) = Some (Datum 0 1 0)"
    using i by (simp add: elemAt_def)
  have high: "elemAt (data ?s) (int (sortedIndex ?s (Datum 2 3 0))) = Some (Datum 1 5 0)"
    using i by (simp add: elemAt_def)
  have tie: "getXVal ?s (Datum 2 3 0) - getXVal ?s (Datum 0 1 0)
               = getXVal ?s (Datum 1 5 0) - getXVal ?s (Datum 2 3 0)"
    by simp
  from nearestPoint_tie_predecessor [OF low high tie] low high show ?thesis by simp
qed

text \<open>
  C8. \<^verbatim>\<open>reset(newPoints)\<close> leaves exactly the points of \<open>newPoints\<close>, in their
  order; the statistics are those of \<^verbatim>\<open>resetStats\<close> on that array, which is the fold
  of \<^verbatim>\<open>updateStats\<close> over it from no statistics; and the events emitted are one
  \<^verbatim>\<open>reset\<close> followed by one \<^verbatim>\<open>add\<close> per point, with its index. This holds for any
  array, so for one that is sorted and free of duplicates.
\<close>

theorem reset_reseeds:
  "data (reset s (Some newPoints)) = newPoints \<and>
   stats (reset s (Some newPoints)) = stats (resetStats (s\<lparr>data := newPoints\<rparr>)) \<and>
   stats (resetStats (s\<lparr>data := newPoints\<rparr>))
     = stats (foldl updateStats (s\<lparr>data := newPoints, stats := None\<rparr>) newPoints) \<and>
   emitted (reset s (Some newPoints))
     = emitted s @ EvReset # map (\<lambda>(i, p). EvAdd p i) (enumerate 0 newPoints)"
  by (simp add: reset_seed_data reset_seed_stats reset_seed_emitted resetStats_def)

text \<open>
  C9. \<^verbatim>\<open>remove(point)\<close> of a stored point: with \<open>i\<close> the first index holding the
  point, the new state is the old one with the element at \<open>i\<close> cut out of the points
  and one \<^verbatim>\<open>remove\<close> event with the point and \<open>i\<close> appended. Every other field,
  the statistics among them, is the old one.
\<close>

theorem remove_stored_point:
  assumes "point \<in> set (data s)"
  shows "\<exists>i < length (data s).
           data s ! i = point \<and> point \<notin> set (take i (data s)) \<and>
           remove s point =
             s\<lparr>data := take i (data s) @ drop (Suc i) (data s),
               emitted := emitted s @ [EvRemove point (int i)]\<rparr>"
proof -
  let ?i = "length (takeWhile (\<lambda>y. y \<noteq> point) (data s))"
  have lt: "?i < length (data s)" and at: "data s ! ?i = point"
    using first_index_props [OF assms] by simp_all
  have "take ?i (data s) = takeWhile (\<lambda>y. y \<noteq> point) (data s)"
    by (rule takeWhile_eq_take [symmetric])
  then have notin: "point \<notin> set (take ?i (data s))"
    by (auto dest: set_takeWhileD)
  have "remove s point =
          s\<lparr>data := take ?i (data s) @ drop (Suc ?i) (data s),
            emitted := emitted s @ [EvRemove point (int ?i)]\<rparr>"
    using lt by (simp add: remove_def Let_def indexOf_found [OF assms] splice_delete)
  with lt at notin show ?thesis by blast
qed

theorem remove_stored_point_witness:
  "Datum 1 5 9 \<in> set (data (seeded [Datum 0 1 7, Datum 1 5 9])) \<and>
   remove (seeded [Datum 0 1 7, Datum 1 5 9]) (Datum 1 5 9)
     = (seeded [Datum 0 1 7, Datum 1 5 9])
         \<lparr>data := [Datum 0 1 7],
          emitted := emitted (seeded [Datum 0 1 7, Datum 1 5 9]) @ [EvRemove (Datum 1 5 9) 1]\<rparr> \<and>
   stats (remove (seeded [Datum 0 1 7, Datum 1 5 9]) (Datum 1 5 9))
     = stats (seeded [Datum 0 1 7, Datum 1 5 9])"
proof -
  let ?s = "seeded [Datum 0 1 7, Datum 1 5 9]"
  have stored: "Datum 1 5 9 \<in> set (data ?s)" by simp
  from remove_stored_point [OF stored] obtain i where
    i: "i < length (data ?s)" "data ?s ! i = Datum 1 5 9" and
    eq: "remove ?s (Datum 1 5 9) =
         ?s\<lparr>data := take i (data ?s) @ drop (Suc i) (data ?s),
            emitted := emitted ?s @ [EvRemove (Datum 1 5 9) (int i)]\<rparr>"
    by blast
  from i have "i = 1" by (cases i) auto
  with eq stored show ?thesis by simp
qed

text \<open>
  C10. \<^verbatim>\<open>remove(point)\<close> of a point that is not in a non-empty buffer:
  \<^verbatim>\<open>indexOf\<close> gives -1, \<^verbatim>\<open>splice(-1, 1)\<close> cuts the last element, and the event
  carries the point and the index -1.
\<close>

theorem remove_unfound_point:
  assumes "data s \<noteq> []" and "point \<notin> set (data s)"
  shows "indexOf (data s) point = - 1 \<and>
         remove s point =
           s\<lparr>data := butlast (data s), emitted := emitted s @ [EvRemove point (- 1)]\<rparr>"
  using assms by (simp add: remove_def Let_def indexOf_missing splice_delete_last)

theorem remove_unfound_point_witness:
  "data (seeded [Datum 0 1 7, Datum 1 5 9]) \<noteq> [] \<and>
   Datum 2 5 9 \<notin> set (data (seeded [Datum 0 1 7, Datum 1 5 9])) \<and>
   data (remove (seeded [Datum 0 1 7, Datum 1 5 9]) (Datum 2 5 9)) = [Datum 0 1 7] \<and>
   emitted (remove (seeded [Datum 0 1 7, Datum 1 5 9]) (Datum 2 5 9))
     = emitted (seeded [Datum 0 1 7, Datum 1 5 9]) @ [EvRemove (Datum 2 5 9) (- 1)]"
proof -
  have h1: "data (seeded [Datum 0 1 7, Datum 1 5 9]) \<noteq> []" by simp
  have h2: "Datum 2 5 9 \<notin> set (data (seeded [Datum 0 1 7, Datum 1 5 9]))" by simp
  from remove_unfound_point [OF h1 h2] h1 h2 show ?thesis by simp
qed

end
